theory Spec2Isabelle
  imports Complex_Main
begin

section \<open>The NumPy fragment used by the two notebooks\<close>

text \<open>
  The notebooks compute with NumPy arrays of 64-bit floats. The development idealises a
  float as a real number: the claims verified below are algebraic and structural (shapes,
  element order, aliasing, which formula is evaluated), and rounding plays no part in them.
  A one-dimensional array is the list of its entries; a two-dimensional array of shape
  \<open>(r, c)\<close> is the list of its \<open>r\<close> rows, each a list of \<open>c\<close> entries, so entry
  \<open>M[i, j]\<close> is \<open>M ! i ! j\<close>.

  Every exception the notebooks' own lines can raise on the way is a value of \<open>error\<close>,
  and a computation that may raise returns \<open>error + 'a\<close> with \<open>Inl\<close> for the exception.
\<close>

type_synonym vec = "real list"
type_synonym mat = "real list list"

datatype error = ValueError | IndexError | SolverError

definition is_mat :: "nat \<Rightarrow> nat \<Rightarrow> 'a list list \<Rightarrow> bool" where
  "is_mat r c M \<longleftrightarrow> length M = r \<and> list_all (\<lambda>row. length row = c) M"

text \<open>Sequencing of computations that may raise: the first exception aborts the rest.\<close>

definition and_then :: "error + 'a \<Rightarrow> ('a \<Rightarrow> error + 'b) \<Rightarrow> error + 'b" where
  "and_then m f = (case m of Inl e \<Rightarrow> Inl e | Inr x \<Rightarrow> f x)"

text \<open>A list comprehension whose element expression may raise: evaluated left to right.\<close>

fun collect :: "(error + 'a) list \<Rightarrow> error + 'a list" where
  "collect [] = Inr []"
| "collect (m # ms) =
     (case m of
        Inl e \<Rightarrow> Inl e
      | Inr x \<Rightarrow> (case collect ms of Inl e \<Rightarrow> Inl e | Inr xs \<Rightarrow> Inr (x # xs)))"

text \<open>Python's \<open>xs[l]\<close> for a non-negative index \<open>l\<close>.\<close>

definition index :: "'a list \<Rightarrow> nat \<Rightarrow> error + 'a" where
  "index xs l = (if l < length xs then Inr (xs ! l) else Inl IndexError)"

subsection \<open>Products\<close>

text \<open>
  The entries of the products, without the shape checks: the inner product of two vectors,
  matrix times vector, and (row) vector times matrix, \<open>(x M)[j] = sum_i x[i] * M[i, j]\<close>.
\<close>

definition dot :: "vec \<Rightarrow> vec \<Rightarrow> real" where
  "dot x y = sum_list (map2 (*) x y)"

definition mv :: "mat \<Rightarrow> vec \<Rightarrow> vec" where
  "mv M x = map (\<lambda>row. dot row x) M"

definition ncols :: "mat \<Rightarrow> nat" where
  "ncols M = (case M of [] \<Rightarrow> 0 | row # _ \<Rightarrow> length row)"

definition vm :: "vec \<Rightarrow> mat \<Rightarrow> vec" where
  "vm x M = map (\<lambda>j. sum_list (map2 (\<lambda>xi row. xi * row ! j) x M)) [0..<ncols M]"

definition eye :: "nat \<Rightarrow> mat" where
  "eye n = map (\<lambda>i. map (\<lambda>j. if i = j then 1 else 0) [0..<n]) [0..<n]"

definition neg :: "mat \<Rightarrow> mat" where
  "neg M = map (map uminus) M"

definition zeros :: "nat \<Rightarrow> vec" where
  "zeros n = replicate n 0"

definition vadd :: "vec \<Rightarrow> vec \<Rightarrow> vec" where
  "vadd x y = map2 (+) x y"

definition scale_mat :: "real \<Rightarrow> mat \<Rightarrow> mat" where
  "scale_mat a M = map (map ((*) a)) M"

text \<open>
  \<open>a.dot(b)\<close> as NumPy checks it: ValueError (shapes not aligned) unless the inner
  dimensions agree.
\<close>

definition np_dot_vv :: "vec \<Rightarrow> vec \<Rightarrow> error + real" where
  "np_dot_vv x y = (if length x = length y then Inr (dot x y) else Inl ValueError)"

definition np_dot_mv :: "mat \<Rightarrow> vec \<Rightarrow> error + vec" where
  "np_dot_mv M x =
     (if list_all (\<lambda>row. length row = length x) M then Inr (mv M x) else Inl ValueError)"

definition np_dot_vm :: "vec \<Rightarrow> mat \<Rightarrow> error + vec" where
  "np_dot_vm x M = (if length x = length M then Inr (vm x M) else Inl ValueError)"

text \<open>\<open>np.max\<close> of a one-dimensional array: ValueError on an array with no entry.\<close>

definition np_max :: "vec \<Rightarrow> error + real" where
  "np_max xs = (case xs of [] \<Rightarrow> Inl ValueError | x # xs' \<Rightarrow> Inr (fold max xs' x))"

text \<open>
  \<open>np.ones(M.shape, dtype=bool)\<close>, \<open>np.fill_diagonal(mask, v)\<close> (entry \<open>(i, i)\<close> of every
  row that has one), and \<open>A[mask]\<close> for a boolean mask of the shape of \<open>A\<close>: the entries
  of \<open>A\<close> at the True positions, in row-major order.
\<close>

definition ones_like :: "mat \<Rightarrow> bool list list" where
  "ones_like M = map (\<lambda>row. replicate (length row) True) M"

definition fill_diagonal :: "'a list list \<Rightarrow> 'a \<Rightarrow> 'a list list" where
  "fill_diagonal M v = map2 (\<lambda>i row. row[i := v]) [0..<length M] M"

definition select :: "mat \<Rightarrow> bool list list \<Rightarrow> vec" where
  "select A msk = map fst (filter snd (zip (concat A) (concat msk)))"

text \<open>
  Elementwise arithmetic. The operands of \<open>+\<close> and \<open>-\<close> have equal shapes wherever the
  notebooks run on data of matching dimensions, and the model raises ValueError
  otherwise (NumPy's broadcasting of a one-entry or one-column operand is outside the
  model). A scalar operand is applied to every entry.
\<close>

definition np_add_mat :: "mat \<Rightarrow> mat \<Rightarrow> error + mat" where
  "np_add_mat A B =
     (if length A = length B \<and> list_all2 (\<lambda>a b. length a = length b) A B
      then Inr (map2 (map2 (+)) A B) else Inl ValueError)"

definition np_sub :: "vec \<Rightarrow> vec \<Rightarrow> error + vec" where
  "np_sub x y = (if length x = length y then Inr (map2 (-) x y) else Inl ValueError)"

definition add_scalar :: "vec \<Rightarrow> real \<Rightarrow> vec" where
  "add_scalar x a = map (\<lambda>y. y + a) x"

definition div_vec :: "vec \<Rightarrow> real \<Rightarrow> vec" where
  "div_vec x a = map (\<lambda>y. y / a) x"

definition div_mat :: "mat \<Rightarrow> real \<Rightarrow> mat" where
  "div_mat M a = map (\<lambda>row. div_vec row a) M"

definition maximum0 :: "vec \<Rightarrow> vec" where
  "maximum0 x = map (\<lambda>y. max y 0) x"

text \<open>\<open>np.linalg.norm\<close> of a vector: the Euclidean norm.\<close>

definition norm2 :: "vec \<Rightarrow> real" where
  "norm2 x = sqrt (sum_list (map (\<lambda>y. y * y) x))"

text \<open>\<open>M.T\<close> and the matrix product \<open>A.dot(B)\<close>.\<close>

definition transpose_mat :: "mat \<Rightarrow> mat" where
  "transpose_mat M = map (\<lambda>j. map (\<lambda>row. row ! j) M) [0..<ncols M]"

definition np_dot_mm :: "mat \<Rightarrow> mat \<Rightarrow> error + mat" where
  "np_dot_mm A B =
     (if list_all (\<lambda>row. length row = length B) A
      then Inr (map (\<lambda>row. vm row B) A) else Inl ValueError)"

text \<open>
  \<open>np.hstack\<close> of a list of vectors (their concatenation) and of a list of matrices with
  the same number of rows (row \<open>i\<close> of the result is the concatenation of their rows
  \<open>i\<close>); ValueError on an empty list and on differing row counts.
\<close>

definition hstack_rows :: "nat \<Rightarrow> mat list \<Rightarrow> mat" where
  "hstack_rows m Ms = map (\<lambda>i. concat (map (\<lambda>N. N ! i) Ms)) [0..<m]"

definition np_hstack1 :: "vec list \<Rightarrow> error + vec" where
  "np_hstack1 vs = (case vs of [] \<Rightarrow> Inl ValueError | _ # _ \<Rightarrow> Inr (concat vs))"

definition np_hstack2 :: "mat list \<Rightarrow> error + mat" where
  "np_hstack2 Ms =
     (case Ms of
        [] \<Rightarrow> Inl ValueError
      | M # rest \<Rightarrow>
          if list_all (\<lambda>N. length N = length M) rest
          then Inr (hstack_rows (length M) Ms) else Inl ValueError)"

subsection \<open>Flattening and reshaping in row-major order\<close>

text \<open>\<open>M.ravel(order='C')\<close>: the rows of \<open>M\<close> one after the other.\<close>

definition ravel :: "mat \<Rightarrow> vec" where
  "ravel M = concat M"

text \<open>The first \<open>r\<close> consecutive runs of \<open>c\<close> entries of a flat buffer.\<close>

fun rows_of :: "nat \<Rightarrow> nat \<Rightarrow> 'a list \<Rightarrow> 'a list list" where
  "rows_of 0 c v = []"
| "rows_of (Suc r) c v = take c v # rows_of r c (drop c v)"

text \<open>
  \<open>v.reshape((r, c), order='C')\<close> for a one-dimensional \<open>v\<close>: NumPy raises ValueError
  unless \<open>v\<close> has exactly \<open>r * c\<close> entries.
\<close>

definition reshape :: "nat \<times> nat \<Rightarrow> vec \<Rightarrow> error + mat" where
  "reshape rc v =
     (case rc of (r, c) \<Rightarrow>
        if length v = r * c then Inr (rows_of r c v) else Inl ValueError)"

subsection \<open>Arrays as views on shared buffers\<close>

text \<open>
  An ndarray object does not own its entries: it names a buffer and a shape, and several
  array objects may name the same buffer. \<open>reshape\<close> of a one-dimensional array returns
  such a view (no copy is made), and an assignment through a boolean mask writes into the
  buffer. The heap maps a buffer address to the buffer's entries in row-major order.
\<close>

type_synonym addr = nat
type_synonym heap = "addr \<Rightarrow> real list"

record ndarray =
  buffer :: addr
  shape :: "nat list"

definition nd_reshape :: "ndarray \<Rightarrow> nat \<times> nat \<Rightarrow> error + ndarray" where
  "nd_reshape a rc =
     (case rc of (r, c) \<Rightarrow>
        if prod_list (shape a) = r * c
        then Inr \<lparr>buffer = buffer a, shape = [r, c]\<rparr>
        else Inl ValueError)"

text \<open>The entries an array object shows under a heap, flat and as a matrix.\<close>

definition nd_flat :: "heap \<Rightarrow> ndarray \<Rightarrow> vec" where
  "nd_flat h a = h (buffer a)"

definition nd_matrix :: "heap \<Rightarrow> ndarray \<Rightarrow> mat" where
  "nd_matrix h a =
     (case shape a of [r, c] \<Rightarrow> rows_of r c (h (buffer a)) | _ \<Rightarrow> [])"

section \<open>Sparse inverse covariance estimation: the regularisation path\<close>

text \<open>
  \<^verbatim>\<open>mask = np.ones(Q.shape, dtype=bool); np.fill_diagonal(mask, 0)\<close>
  \<^verbatim>\<open>alpha_max = np.max(np.abs(Q)[mask])\<close>
\<close>

definition alpha_max :: "mat \<Rightarrow> error + real" where
  "alpha_max Q =
     (let mask = fill_diagonal (ones_like Q) False
      in np_max (select (map (map abs) Q) mask))"

text \<open>\<^verbatim>\<open>alpha_ratios = np.array([1, 0.1, 0.01]); alphas = alpha_ratios*alpha_max\<close>\<close>

definition alpha_ratios :: vec where
  "alpha_ratios = [1, 1 / 10, 1 / 100]"

definition alphas :: "real \<Rightarrow> vec" where
  "alphas a = map (\<lambda>ratio. ratio * a) alpha_ratios"

section \<open>Sparse inverse covariance estimation: the problem handed to the solver\<close>

text \<open>
  The solver takes a list of proximal operators, each a callable
  \<open>(point, step) \<mapsto> point\<close>, a list of coupling matrices and a right-hand side. The two
  proximal primitives \<open>prox_neg_log_det\<close> and \<open>prox_norm1\<close> belong to the solver's library
  and are parameters here.
\<close>

type_synonym prox = "vec \<Rightarrow> real \<Rightarrow> error + vec"

record problem =
  prox_list :: "prox list"
  A_list :: "mat list"
  b_vec :: vec

text \<open>
  \<^verbatim>\<open>prox_list = [lambda v, t: prox_neg_log_det(v.reshape((q,q), order='C'), t,\<close>
  \<^verbatim>\<open>                 lin_term=t*Q).ravel(order='C'),\<close>
  \<^verbatim>\<open>             lambda v, t: prox_norm1(v, t*alpha)]\<close>
  \<^verbatim>\<open>A_list = [sparse.eye(q*q), -sparse.eye(q*q)]\<close>
  \<^verbatim>\<open>b = np.zeros(q*q)\<close>
\<close>

definition assemble ::
  "(mat \<Rightarrow> real \<Rightarrow> mat \<Rightarrow> error + mat) \<Rightarrow> (vec \<Rightarrow> real \<Rightarrow> error + vec) \<Rightarrow>
   nat \<Rightarrow> mat \<Rightarrow> real \<Rightarrow> problem" where
  "assemble prox_neg_log_det prox_norm1 q Q alpha =
     \<lparr>prox_list =
        [\<lambda>v t. and_then (reshape (q, q) v)
                 (\<lambda>V. and_then (prox_neg_log_det V t (scale_mat t Q))
                 (\<lambda>S. Inr (ravel S))),
         \<lambda>v t. prox_norm1 v (t * alpha)],
      A_list = [eye (q * q), neg (eye (q * q))],
      b_vec = zeros (q * q)\<rparr>"

text \<open>
  The left-hand side of the coupling constraint the solver enforces,
  \<open>A_1 x_1 + ... + A_n x_n\<close>, for block vectors \<open>x_i\<close>; \<open>m\<close> is the number of rows.
\<close>

definition coupling_lhs :: "nat \<Rightarrow> mat list \<Rightarrow> vec list \<Rightarrow> vec" where
  "coupling_lhs m As xs = foldr vadd (map2 mv As xs) (zeros m)"

section \<open>Sparse inverse covariance estimation: post-processing of the result\<close>

text \<open>
  \<^verbatim>\<open>S_thres[np.abs(S_thres) <= 1e-4] = 0\<close> sets to zero, in place, every entry whose
  magnitude is at most the tolerance and leaves the other entries as they are.
\<close>

definition snap :: "real \<Rightarrow> real" where
  "snap x = (if \<bar>x\<bar> \<le> 1 / 10000 then 0 else x)"

definition threshold :: "mat \<Rightarrow> mat" where
  "threshold M = map (map snap) M"

definition threshold_inplace :: "ndarray \<Rightarrow> heap \<Rightarrow> heap" where
  "threshold_inplace S h = h (buffer S := map snap (h (buffer S)))"

text \<open>
  The solver's result object, of which the notebook reads \<open>x_vals\<close>: the block solution
  vectors, each an array object on the heap.
\<close>

record a2dr_result =
  x_vals :: "ndarray list"

text \<open>
  \<^verbatim>\<open>a2dr_S = a2dr_result["x_vals"][-1].reshape((q,q), order='C')\<close>
  \<^verbatim>\<open>S_thres = a2dr_S\<close>
  \<^verbatim>\<open>S_thres[np.abs(S_thres) <= 1e-4] = 0\<close>
  The reshape is a view on the buffer of the last block vector, \<open>S_thres\<close> is a second
  name for that view, and the masked assignment writes through it.
\<close>

definition post_process :: "nat \<Rightarrow> a2dr_result \<Rightarrow> heap \<Rightarrow> error + ndarray \<times> heap" where
  "post_process q res h =
     (case x_vals res of
        [] \<Rightarrow> Inl IndexError
      | _ # _ \<Rightarrow>
          and_then (nd_reshape (last (x_vals res)) (q, q))
            (\<lambda>a2dr_S. let S_thres = a2dr_S in Inr (S_thres, threshold_inplace S_thres h)))"

text \<open>
  One pass of the loop over \<open>alphas\<close>, with the solver \<open>a2dr\<close> as a parameter, and the
  loop: \<open>Ss\<close> collects the thresholded arrays.
\<close>

definition loop_body ::
  "(problem \<Rightarrow> heap \<Rightarrow> error + a2dr_result \<times> heap) \<Rightarrow>
   (mat \<Rightarrow> real \<Rightarrow> mat \<Rightarrow> error + mat) \<Rightarrow> (vec \<Rightarrow> real \<Rightarrow> error + vec) \<Rightarrow>
   nat \<Rightarrow> mat \<Rightarrow> real \<Rightarrow> ndarray list \<times> heap \<Rightarrow> error + ndarray list \<times> heap" where
  "loop_body a2dr prox_neg_log_det prox_norm1 q Q alpha st =
     (case st of (Ss, h) \<Rightarrow>
        and_then (a2dr (assemble prox_neg_log_det prox_norm1 q Q alpha) h)
          (\<lambda>(res, h1). and_then (post_process q res h1)
          (\<lambda>(S_thres, h2). Inr (Ss @ [S_thres], h2))))"

fun solve_path ::
  "(problem \<Rightarrow> heap \<Rightarrow> error + a2dr_result \<times> heap) \<Rightarrow>
   (mat \<Rightarrow> real \<Rightarrow> mat \<Rightarrow> error + mat) \<Rightarrow> (vec \<Rightarrow> real \<Rightarrow> error + vec) \<Rightarrow>
   nat \<Rightarrow> mat \<Rightarrow> vec \<Rightarrow> ndarray list \<times> heap \<Rightarrow> error + ndarray list \<times> heap" where
  "solve_path a2dr prox_neg_log_det prox_norm1 q Q [] st = Inr st"
| "solve_path a2dr prox_neg_log_det prox_norm1 q Q (alpha # rest) st =
     and_then (loop_body a2dr prox_neg_log_det prox_norm1 q Q alpha st)
       (solve_path a2dr prox_neg_log_det prox_norm1 q Q rest)"

section \<open>Coupled quadratic program: the data\<close>

text \<open>
  \<open>np.random.randn\<close> draws from the process-wide generator that \<open>np.random.seed(1)\<close>
  has set. The generator is the stream of its future draws, a function from the draw's
  number to its value, and the state that the calls thread is the number of draws made.
  Nothing below depends on the values drawn.
\<close>

type_synonym rng = "nat \<Rightarrow> real"

definition randn1 :: "rng \<Rightarrow> nat \<Rightarrow> nat \<Rightarrow> vec \<times> nat" where
  "randn1 g n k = (map g [k..<k + n], k + n)"

definition randn2 :: "rng \<Rightarrow> nat \<Rightarrow> nat \<Rightarrow> nat \<Rightarrow> mat \<times> nat" where
  "randn2 g r c k = (rows_of r c (map g [k..<k + r * c]), k + r * c)"

text \<open>\<^verbatim>\<open>[draw for l in range(n)]\<close>: \<open>n\<close> successive draws.\<close>

fun draws :: "(nat \<Rightarrow> 'a \<times> nat) \<Rightarrow> nat \<Rightarrow> nat \<Rightarrow> 'a list \<times> nat" where
  "draws draw 0 k = ([], k)"
| "draws draw (Suc n) k =
     (case draw k of (x, k') \<Rightarrow>
      case draws draw n k' of (xs, k'') \<Rightarrow> (x # xs, k''))"

record qp_data =
  dat_c_list :: "vec list"
  dat_F_list :: "mat list"
  dat_G_list :: "mat list"
  dat_z_tld_list :: "vec list"
  dat_H_list :: "mat list"
  dat_d_list :: "vec list"
  dat_Q_list :: "mat list"
  dat_G :: mat
  dat_z_tld :: vec
  dat_h :: vec

text \<open>
  The data cell, for \<open>L\<close> blocks, \<open>s\<close> coupling constraints, block dimension \<open>ql\<close> and
  \<open>pl\<close> inequality constraints per block (the notebook sets 4, 10, 30 and 50):
  \<^verbatim>\<open>c_list = [np.random.randn(ql) for l in range(L)]\<close>
  \<^verbatim>\<open>F_list = [np.random.randn(pl,ql) for l in range(L)]\<close>
  \<^verbatim>\<open>G_list = [np.random.randn(s,ql) for l in range(L)]\<close>
  \<^verbatim>\<open>z_tld_list = [np.random.randn(ql) for l in range(L)]\<close>
  \<^verbatim>\<open>H_list = [np.random.randn(ql,ql) for l in range(L)]\<close>
  \<^verbatim>\<open>d_list = [F_list[l].dot(z_tld_list[l]) + 0.1 for l in range(L)]\<close>
  \<^verbatim>\<open>Q_list = [H_list[l].T.dot(H_list[l]) for l in range(L)]\<close>
  \<^verbatim>\<open>G = np.hstack(G_list); z_tld = np.hstack(z_tld_list); h = G.dot(z_tld)\<close>
\<close>

definition generate_data :: "rng \<Rightarrow> nat \<Rightarrow> nat \<Rightarrow> nat \<Rightarrow> nat \<Rightarrow> error + qp_data" where
  "generate_data g L s ql pl =
     (case draws (randn1 g ql) L 0 of (c_list, k1) \<Rightarrow>
      case draws (randn2 g pl ql) L k1 of (F_list, k2) \<Rightarrow>
      case draws (randn2 g s ql) L k2 of (G_list, k3) \<Rightarrow>
      case draws (randn1 g ql) L k3 of (z_tld_list, k4) \<Rightarrow>
      case draws (randn2 g ql ql) L k4 of (H_list, k5) \<Rightarrow>
        and_then (collect (map (\<lambda>l.
            and_then (index F_list l) (\<lambda>F.
            and_then (index z_tld_list l) (\<lambda>z.
            and_then (np_dot_mv F z) (\<lambda>Fz. Inr (add_scalar Fz (1 / 10)))))) [0..<L]))
        (\<lambda>d_list.
        and_then (collect (map (\<lambda>l.
            and_then (index H_list l) (\<lambda>H. np_dot_mm (transpose_mat H) H)) [0..<L]))
        (\<lambda>Q_list.
        and_then (np_hstack2 G_list) (\<lambda>G.
        and_then (np_hstack1 z_tld_list) (\<lambda>z_tld.
        and_then (np_dot_mv G z_tld) (\<lambda>h.
          Inr \<lparr>dat_c_list = c_list, dat_F_list = F_list, dat_G_list = G_list,
               dat_z_tld_list = z_tld_list, dat_H_list = H_list, dat_d_list = d_list,
               dat_Q_list = Q_list, dat_G = G, dat_z_tld = z_tld, dat_h = h\<rparr>))))))"

definition notebook_data :: "rng \<Rightarrow> error + qp_data" where
  "notebook_data g = generate_data g 4 10 30 50"

section \<open>Coupled quadratic program: the proximal operator\<close>

text \<open>
  What \<open>prox_qp\<close> builds with the modelling layer: a variable of dimension \<open>q\<close>, the
  objective \<open>quad_form(x, P) + lin * x\<close> (the product of two one-dimensional operands
  is their inner product) and the single constraint \<open>F * x <= d\<close>.
\<close>

record cvx_problem =
  var_dim :: nat
  obj_quad :: mat
  obj_lin :: vec
  con_F :: mat
  con_d :: vec

text \<open>
  The quadratic-program backend is a parameter. A call of \<open>prob.solve\<close> either raises,
  or returns after setting the problem's status and the variable's value; the value is
  \<open>None\<close> when the status is not an optimal one.
\<close>

datatype solve_status = Optimal | Infeasible | Unbounded

record solve_report =
  rep_status :: solve_status
  rep_value :: "vec option"

type_synonym backend = "cvx_problem \<Rightarrow> error + solve_report"

text \<open>
  \<^verbatim>\<open>q = Q.shape[0]; I = np.eye(q)\<close>
  \<^verbatim>\<open>x = Variable(q)\<close>
  \<^verbatim>\<open>obj = quad_form(x, Q + I/(2*t)) + (c - v/t)*x\<close>
  \<^verbatim>\<open>constr = [F*x <= d]\<close>
  \<^verbatim>\<open>prob = Problem(Minimize(obj), constr)\<close>
  The modelling layer rejects operands whose dimensions do not fit the variable.
\<close>

definition form_problem :: "vec \<Rightarrow> real \<Rightarrow> mat \<Rightarrow> vec \<Rightarrow> mat \<Rightarrow> vec \<Rightarrow> error + cvx_problem" where
  "form_problem v t Q c F d =
     (let q = length Q; I = eye q in
      and_then (np_add_mat Q (div_mat I (2 * t))) (\<lambda>P.
      and_then (np_sub c (div_vec v t)) (\<lambda>lin.
        if length lin = q \<and> list_all (\<lambda>row. length row = q) F \<and> length d = length F
        then Inr \<lparr>var_dim = q, obj_quad = P, obj_lin = lin, con_F = F, con_d = d\<rparr>
        else Inl ValueError)))"

text \<open>
  \<^verbatim>\<open>prob.solve(solver = "OSQP")\<close>
  \<^verbatim>\<open>return x.value\<close>
  The value that \<open>solve\<close> returns and the status it sets are not read.
\<close>

definition prox_qp ::
  "backend \<Rightarrow> vec \<Rightarrow> real \<Rightarrow> mat \<Rightarrow> vec \<Rightarrow> mat \<Rightarrow> vec \<Rightarrow> error + vec option" where
  "prox_qp solve v t Q c F d =
     and_then (form_problem v t Q c F d) (\<lambda>prob.
     and_then (solve prob) (\<lambda>report. Inr (rep_value report)))"




definition feasible :: "cvx_problem \<Rightarrow> vec \<Rightarrow> bool" where
  "feasible p x \<longleftrightarrow> length x = var_dim p \<and> list_all2 (\<le>) (mv (con_F p) x) (con_d p)"



definition symmetric :: "nat \<Rightarrow> mat \<Rightarrow> bool" where
  "symmetric q Q \<longleftrightarrow> (\<forall>i<q. \<forall>j<q. Q ! i ! j = Q ! j ! i)"

section \<open>Coupled quadratic program: one operator per block\<close>

text \<open>
  A Python closure does not copy the variables of the enclosing call: it keeps a
  reference to that call's frame and reads a variable from it when the closure is
  called. \<open>frames\<close> is the store of the frames that calls of \<open>prox_qp_wrapper\<close> have
  created, addressed by position, and a closure is the address of its frame.
  \<^verbatim>\<open>def prox_qp_wrapper(l, Q_list, c_list, F_list, d_list):\<close>
  \<^verbatim>\<open>    return lambda v, t: prox_qp(v, t, Q_list[l], c_list[l], F_list[l], d_list[l])\<close>
\<close>

record frame =
  fr_l :: nat
  fr_Q_list :: "mat list"
  fr_c_list :: "vec list"
  fr_F_list :: "mat list"
  fr_d_list :: "vec list"

datatype closure = Closure addr

type_synonym frames = "frame list"

definition prox_qp_wrapper ::
  "nat \<Rightarrow> mat list \<Rightarrow> vec list \<Rightarrow> mat list \<Rightarrow> vec list \<Rightarrow> frames \<Rightarrow> closure \<times> frames" where
  "prox_qp_wrapper l Q_list c_list F_list d_list fs =
     (Closure (length fs),
      fs @ [\<lparr>fr_l = l, fr_Q_list = Q_list, fr_c_list = c_list,
             fr_F_list = F_list, fr_d_list = d_list\<rparr>])"

text \<open>
  Calling the closure with \<open>(v, t)\<close>: the body runs in the closure's frame, where it
  reads \<open>l\<close> and the four lists.
\<close>

definition call_closure ::
  "backend \<Rightarrow> frames \<Rightarrow> closure \<Rightarrow> vec \<Rightarrow> real \<Rightarrow> error + vec option" where
  "call_closure solve fs cl v t =
     (case cl of Closure a \<Rightarrow>
        and_then (index fs a) (\<lambda>fr.
        and_then (index (fr_Q_list fr) (fr_l fr)) (\<lambda>Q.
        and_then (index (fr_c_list fr) (fr_l fr)) (\<lambda>c.
        and_then (index (fr_F_list fr) (fr_l fr)) (\<lambda>F.
        and_then (index (fr_d_list fr) (fr_l fr)) (\<lambda>d.
          prox_qp solve v t Q c F d))))))"

text \<open>
  \<^verbatim>\<open>prox_list = list(map(lambda l: prox_qp_wrapper(l, Q_list, c_list, F_list, d_list),\<close>
  \<^verbatim>\<open>                     range(L)))\<close>
\<close>

fun map_calls ::
  "(nat \<Rightarrow> frames \<Rightarrow> closure \<times> frames) \<Rightarrow> nat list \<Rightarrow> frames \<Rightarrow> closure list \<times> frames" where
  "map_calls f [] fs = ([], fs)"
| "map_calls f (l # ls) fs =
     (case f l fs of (cl, fs') \<Rightarrow>
      case map_calls f ls fs' of (cls, fs'') \<Rightarrow> (cl # cls, fs''))"

definition make_prox_list ::
  "nat \<Rightarrow> mat list \<Rightarrow> vec list \<Rightarrow> mat list \<Rightarrow> vec list \<Rightarrow> frames \<Rightarrow> closure list \<times> frames" where
  "make_prox_list L Q_list c_list F_list d_list fs =
     map_calls (\<lambda>l. prox_qp_wrapper l Q_list c_list F_list d_list) [0..<L] fs"

section \<open>Coupled quadratic program: objective and constraint violation\<close>

text \<open>
  \<^verbatim>\<open>a2dr_obj = np.sum([a2dr_x[l].dot(Q_list[l]).dot(a2dr_x[l])\<close>
  \<^verbatim>\<open>                   + c_list[l].dot(a2dr_x[l]) for l in range(L)])\<close>
\<close>

definition a2dr_obj :: "nat \<Rightarrow> mat list \<Rightarrow> vec list \<Rightarrow> vec list \<Rightarrow> error + real" where
  "a2dr_obj L Q_list c_list a2dr_x =
     and_then (collect (map (\<lambda>l.
         and_then (index a2dr_x l) (\<lambda>x.
         and_then (index Q_list l) (\<lambda>Q.
         and_then (np_dot_vm x Q) (\<lambda>xQ.
         and_then (np_dot_vv xQ x) (\<lambda>xQx.
         and_then (index c_list l) (\<lambda>c.
         and_then (np_dot_vv c x) (\<lambda>cx. Inr (xQx + cx)))))))) [0..<L]))
     (\<lambda>terms. Inr (sum_list terms))"

text \<open>
  \<^verbatim>\<open>a2dr_constr_vio = [np.linalg.norm(np.maximum(F_list[l].dot(a2dr_x[l])\<close>
  \<^verbatim>\<open>                   - d_list[l], 0))**2 for l in range(L)]\<close>
  \<^verbatim>\<open>a2dr_constr_vio += [np.linalg.norm(G.dot(np.hstack(a2dr_x)) - h)**2]\<close>
  \<^verbatim>\<open>a2dr_constr_vio_val = np.sqrt(np.sum(a2dr_constr_vio))\<close>
\<close>

definition a2dr_constr_vio_val ::
  "nat \<Rightarrow> mat list \<Rightarrow> vec list \<Rightarrow> mat \<Rightarrow> vec \<Rightarrow> vec list \<Rightarrow> error + real" where
  "a2dr_constr_vio_val L F_list d_list G h a2dr_x =
     and_then (collect (map (\<lambda>l.
         and_then (index F_list l) (\<lambda>F.
         and_then (index a2dr_x l) (\<lambda>x.
         and_then (np_dot_mv F x) (\<lambda>Fx.
         and_then (index d_list l) (\<lambda>d.
         and_then (np_sub Fx d) (\<lambda>r. Inr ((norm2 (maximum0 r))\<^sup>2))))))) [0..<L]))
     (\<lambda>a2dr_constr_vio.
     and_then (np_hstack1 a2dr_x) (\<lambda>x.
     and_then (np_dot_mv G x) (\<lambda>Gx.
     and_then (np_sub Gx h) (\<lambda>r.
       Inr (sqrt (sum_list (a2dr_constr_vio @ [(norm2 r)\<^sup>2])))))))"

text \<open>
  The two reported quantities as the specification words them, entry by entry: the sum
  over the blocks of \<open>x_l' Q_l x_l + c_l' x_l\<close>, and the square root of the sum over
  the blocks of the squared norms of \<open>max(F_l x_l - d_l, 0)\<close> plus the squared norm of
  \<open>G x - h\<close>, where \<open>x\<close> is the concatenation of the \<open>x_l\<close>.
\<close>

definition spec_objective :: "nat \<Rightarrow> mat list \<Rightarrow> vec list \<Rightarrow> vec list \<Rightarrow> real" where
  "spec_objective L Qs cs xs =
     (\<Sum>l<L. (\<Sum>i<length (xs ! l). \<Sum>j<length (xs ! l). xs ! l ! i * Qs ! l ! i ! j * xs ! l ! j) +
            (\<Sum>i<length (xs ! l). cs ! l ! i * xs ! l ! i))"

definition spec_violation ::
  "nat \<Rightarrow> mat list \<Rightarrow> vec list \<Rightarrow> mat \<Rightarrow> vec \<Rightarrow> vec list \<Rightarrow> real" where
  "spec_violation L Fs ds G h xs =
     sqrt ((\<Sum>l<L. \<Sum>k<length (ds ! l).
              (max ((\<Sum>j<length (xs ! l). Fs ! l ! k ! j * xs ! l ! j) - ds ! l ! k) 0)\<^sup>2) +
           (\<Sum>k<length h. ((\<Sum>j<length (concat xs). G ! k ! j * concat xs ! j) - h ! k)\<^sup>2))"

section \<open>Properties of the NumPy fragment\<close>

lemma and_then_Inr [simp]: "and_then (Inr x) f = f x"
  by (simp add: and_then_def)

lemma and_then_Inl [simp]: "and_then (Inl e) f = Inl e"
  by (simp add: and_then_def)

lemma is_mat_Nil [simp]: "is_mat r c [] \<longleftrightarrow> r = 0"
  by (auto simp: is_mat_def)

lemma is_mat_Cons:
  "is_mat r c (row # M) \<longleftrightarrow> (\<exists>r'. r = Suc r' \<and> length row = c \<and> is_mat r' c M)"
  by (auto simp: is_mat_def)

lemma is_mat_length: "is_mat r c M \<Longrightarrow> length M = r"
  by (simp add: is_mat_def)

lemma is_mat_row: "is_mat r c M \<Longrightarrow> i < r \<Longrightarrow> length (M ! i) = c"
  by (simp add: is_mat_def list_all_length)

lemma length_rows_of [simp]: "length (rows_of r c v) = r"
  by (induction r arbitrary: v) simp_all

lemma rows_of_concat: "is_mat r c M \<Longrightarrow> rows_of r c (concat M) = M"
proof (induction M arbitrary: r)
  case Nil
  then show ?case by simp
next
  case (Cons row M)
  then obtain r' where r: "r = Suc r'" and row: "length row = c" and M: "is_mat r' c M"
    by (auto simp: is_mat_Cons)
  from Cons.IH [OF M] show ?case
    by (simp add: r row)
qed

lemma length_concat_mat: "is_mat r c M \<Longrightarrow> length (concat M) = r * c"
proof (induction M arbitrary: r)
  case Nil
  then show ?case by simp
next
  case (Cons row M)
  then obtain r' where r: "r = Suc r'" and row: "length row = c" and M: "is_mat r' c M"
    by (auto simp: is_mat_Cons)
  from Cons.IH [OF M] show ?case
    by (simp add: r row)
qed

lemma concat_rows_of: "length v = r * c \<Longrightarrow> concat (rows_of r c v) = v"
proof (induction r arbitrary: v)
  case 0
  then show ?case by simp
next
  case (Suc r)
  then have "length (drop c v) = r * c" by simp
  from Suc.IH [OF this] show ?case by simp
qed

lemma is_mat_rows_of: "length v = r * c \<Longrightarrow> is_mat r c (rows_of r c v)"
proof (induction r arbitrary: v)
  case 0
  then show ?case by simp
next
  case (Suc r)
  then have "length (drop c v) = r * c" by simp
  from Suc.IH [OF this] Suc.prems show ?case
    by (simp add: is_mat_Cons)
qed

lemma concat_nth_mat:
  "is_mat r c M \<Longrightarrow> i < r \<Longrightarrow> j < c \<Longrightarrow> concat M ! (i * c + j) = M ! i ! j"
proof (induction M arbitrary: r i)
  case Nil
  then show ?case by simp
next
  case (Cons row M)
  then obtain r' where r: "r = Suc r'" and row: "length row = c" and M: "is_mat r' c M"
    by (auto simp: is_mat_Cons)
  show ?case
  proof (cases i)
    case 0
    with Cons.prems row show ?thesis by (simp add: nth_append)
  next
    case (Suc i')
    with Cons.prems r have "i' < r'" by simp
    from Cons.IH [OF M this \<open>j < c\<close>] Suc row show ?thesis
      by (simp add: nth_append)
  qed
qed

lemma snap_snap: "snap (snap x) = snap x"
  by (simp add: snap_def)

lemma set_masked:
  assumes "length xs = n" "length ys = n"
  shows "set (map fst (filter snd (zip xs ys))) = {xs ! k | k. k < n \<and> ys ! k}"
proof (intro set_eqI iffI)
  fix x assume "x \<in> set (map fst (filter snd (zip xs ys)))"
  then obtain b where "(x, b) \<in> set (zip xs ys)" "b" by auto
  then obtain k where "xs ! k = x" "ys ! k = b" "k < length xs" "k < length ys"
    by (auto simp: in_set_zip)
  with \<open>b\<close> assms show "x \<in> {xs ! k | k. k < n \<and> ys ! k}" by auto
next
  fix x assume "x \<in> {xs ! k | k. k < n \<and> ys ! k}"
  then obtain k where k: "k < n" "ys ! k" "x = xs ! k" by blast
  with assms have "(x, True) \<in> set (zip xs ys)"
    by (auto simp: in_set_zip intro!: exI [of _ k])
  then have "(x, True) \<in> set (filter snd (zip xs ys))" by simp
  then show "x \<in> set (map fst (filter snd (zip xs ys)))" by force
qed

lemma select_set:
  assumes A: "is_mat r c A" and B: "is_mat r c B"
  shows "set (select A B) = {A ! i ! j | i j. i < r \<and> j < c \<and> B ! i ! j}"
proof -
  have lA: "length (concat A) = r * c" and lB: "length (concat B) = r * c"
    using A B by (simp_all add: length_concat_mat)
  have "set (select A B) = {concat A ! k | k. k < r * c \<and> concat B ! k}"
    unfolding select_def by (rule set_masked) (simp_all add: lA lB)
  also have "\<dots> = {A ! i ! j | i j. i < r \<and> j < c \<and> B ! i ! j}" (is "?L = ?R")
  proof (intro set_eqI iffI)
    fix x assume "x \<in> ?L"
    then obtain k where k: "k < r * c" "concat B ! k" and x: "x = concat A ! k" by blast
    have c: "0 < c" using k by (cases c) auto
    let ?i = "k div c" and ?j = "k mod c"
    have i: "?i < r" using k(1) c by (simp add: less_mult_imp_div_less)
    have j: "?j < c" using c by simp
    have kk: "?i * c + ?j = k" by simp
    from concat_nth_mat [OF A i j] concat_nth_mat [OF B i j] k x kk
    have "x = A ! ?i ! ?j" "B ! ?i ! ?j" by simp_all
    with i j show "x \<in> ?R" by blast
  next
    fix x assume "x \<in> ?R"
    then obtain i j where ij: "i < r" "j < c" "B ! i ! j" and x: "x = A ! i ! j" by blast
    have "i * c + j < r * c"
    proof -
      have "i * c + j < i * c + c" using ij by simp
      also have "\<dots> = Suc i * c" by simp
      also have "\<dots> \<le> r * c" using ij(1) by (intro mult_le_mono1) simp
      finally show ?thesis .
    qed
    with concat_nth_mat [OF A ij(1,2)] concat_nth_mat [OF B ij(1,2)] ij x
    show "x \<in> ?L" by (intro CollectI exI [of _ "i * c + j"]) simp
  qed
  finally show ?thesis .
qed

lemma is_mat_ones_like: "is_mat r c M \<Longrightarrow> is_mat r c (ones_like M)"
  by (simp add: is_mat_def ones_like_def list_all_iff)

lemma ones_like_nth: "is_mat r c M \<Longrightarrow> i < r \<Longrightarrow> ones_like M ! i = replicate c True"
  by (simp add: is_mat_def ones_like_def list_all_length)

lemma is_mat_fill_diagonal: "is_mat r c M \<Longrightarrow> is_mat r c (fill_diagonal M v)"
  by (auto simp: is_mat_def fill_diagonal_def list_all_length)

lemma fill_diagonal_nth:
  "i < length M \<Longrightarrow> fill_diagonal M v ! i = (M ! i)[i := v]"
  by (simp add: fill_diagonal_def)

lemma offdiag_mask_nth:
  assumes "is_mat r c M" "i < r" "j < c"
  shows "fill_diagonal (ones_like M) False ! i ! j \<longleftrightarrow> i \<noteq> j"
proof -
  have "length (ones_like M) = r" using assms by (simp add: ones_like_def is_mat_def)
  with assms show ?thesis
    by (cases "i = j") (simp_all add: fill_diagonal_nth ones_like_nth)
qed

lemma is_mat_map_map: "is_mat r c M \<Longrightarrow> is_mat r c (map (map f) M)"
  by (simp add: is_mat_def list_all_iff)

lemma map_map_nth: "is_mat r c M \<Longrightarrow> i < r \<Longrightarrow> j < c \<Longrightarrow> map (map f) M ! i ! j = f (M ! i ! j)"
  by (simp add: is_mat_def list_all_length)

lemma np_max_Max: "xs \<noteq> [] \<Longrightarrow> np_max xs = Inr (Max (set xs))"
  by (cases xs) (simp_all add: np_max_def Max.set_eq_fold del: set_simps)

lemma offdiag_set:
  assumes Q: "is_mat q q Q"
  shows "set (select (map (map abs) Q) (fill_diagonal (ones_like Q) False)) =
         {\<bar>Q ! i ! j\<bar> | i j. i < q \<and> j < q \<and> i \<noteq> j}"
proof -
  have "set (select (map (map abs) Q) (fill_diagonal (ones_like Q) False)) =
     {map (map abs) Q ! i ! j | i j. i < q \<and> j < q \<and> fill_diagonal (ones_like Q) False ! i ! j}"
    by (rule select_set [OF is_mat_map_map [OF Q] is_mat_fill_diagonal [OF is_mat_ones_like [OF Q]]])
  also have "\<dots> = {\<bar>Q ! i ! j\<bar> | i j. i < q \<and> j < q \<and> i \<noteq> j}" (is "?L = ?R")
  proof (intro set_eqI iffI)
    fix x assume "x \<in> ?L"
    then obtain i j where ij: "i < q" "j < q"
      and m: "fill_diagonal (ones_like Q) False ! i ! j" and x: "x = map (map abs) Q ! i ! j"
      by blast
    from m x map_map_nth [OF Q ij] offdiag_mask_nth [OF Q ij]
    have "x = \<bar>Q ! i ! j\<bar>" "i \<noteq> j" by simp_all
    with ij show "x \<in> ?R" by blast
  next
    fix x assume "x \<in> ?R"
    then obtain i j where ij: "i < q" "j < q" and ne: "i \<noteq> j" and x: "x = \<bar>Q ! i ! j\<bar>"
      by blast
    from ne x map_map_nth [OF Q ij, of abs] offdiag_mask_nth [OF Q ij]
    have "x = map (map abs) Q ! i ! j" "fill_diagonal (ones_like Q) False ! i ! j" by simp_all
    with ij show "x \<in> ?L" by blast
  qed
  finally show ?thesis .
qed

lemma dot_sum: "length x = length y \<Longrightarrow> dot x y = (\<Sum>k<length x. x ! k * y ! k)"
  unfolding dot_def by (simp add: sum_list_sum_nth atLeast0LessThan)

lemma length_mv [simp]: "length (mv M x) = length M"
  by (simp add: mv_def)

lemma mv_nth: "i < length M \<Longrightarrow> mv M x ! i = dot (M ! i) x"
  by (simp add: mv_def)

lemma is_mat_eye: "is_mat n n (eye n)"
  by (simp add: is_mat_def eye_def list_all_iff)

lemma eye_nth: "i < n \<Longrightarrow> j < n \<Longrightarrow> eye n ! i ! j = (if i = j then 1 else 0)"
  by (simp add: eye_def)

lemma is_mat_neg: "is_mat r c M \<Longrightarrow> is_mat r c (neg M)"
  by (simp add: neg_def is_mat_map_map)

lemma neg_nth: "is_mat r c M \<Longrightarrow> i < r \<Longrightarrow> j < c \<Longrightarrow> neg M ! i ! j = - (M ! i ! j)"
  by (simp add: neg_def map_map_nth)

lemma mv_eye: 
  assumes "length x = n"
  shows "mv (eye n) x = x"
proof (rule nth_equalityI)
  show "length (mv (eye n) x) = length x" using assms by (simp add: eye_def)
next
  fix i assume "i < length (mv (eye n) x)"
  then have i: "i < n" by (simp add: eye_def)
  have len: "length (eye n ! i) = length x"
    using is_mat_row [OF is_mat_eye i] assms by simp
  have "mv (eye n) x ! i = dot (eye n ! i) x"
    using i by (simp add: mv_nth eye_def)
  also have "\<dots> = (\<Sum>k<n. eye n ! i ! k * x ! k)"
    using dot_sum [OF len] is_mat_row [OF is_mat_eye i] by simp
  also have "\<dots> = (\<Sum>k<n. if i = k then x ! k else 0)"
    by (intro sum.cong refl) (simp add: eye_nth i)
  also have "\<dots> = x ! i"
    using i by simp
  finally show "mv (eye n) x ! i = x ! i" .
qed

lemma dot_map_uminus: "dot (map uminus r) x = - dot r x"
proof (induction r arbitrary: x)
  case Nil
  then show ?case by (simp add: dot_def)
next
  case (Cons a r)
  then show ?case by (cases x) (simp_all add: dot_def)
qed

lemma mv_neg: "mv (neg M) x = map uminus (mv M x)"
  by (simp add: mv_def neg_def dot_map_uminus)

lemma consensus_constraint:
  assumes "length x1 = n" "length x2 = n"
  shows "coupling_lhs n [eye n, neg (eye n)] [x1, x2] = zeros n \<longleftrightarrow> x1 = x2"
proof -
  have lhs: "coupling_lhs n [eye n, neg (eye n)] [x1, x2] =
      map2 (+) x1 (map2 (+) (map uminus x2) (replicate n 0))"
    using assms by (simp add: coupling_lhs_def vadd_def zeros_def mv_eye mv_neg)
  show ?thesis unfolding lhs zeros_def
    using assms by (auto simp: list_eq_iff_nth_eq)
qed

lemma rows_of_map: "rows_of r c (map f v) = map (map f) (rows_of r c v)"
  by (induction r arbitrary: v) (simp_all add: take_map drop_map)

lemma collect_map_Inr:
  "(\<And>l. l \<in> set ls \<Longrightarrow> f l = Inr (g l)) \<Longrightarrow> collect (map f ls) = Inr (map g ls)"
  by (induction ls) simp_all

lemma sum_list_upt: "sum_list (map f [0..<n]) = (\<Sum>l<n. f l)"
  by (simp add: interv_sum_list_conv_sum_set_nat atLeast0LessThan)

lemma sum_list_map2_nth:
  "length xs = length ys \<Longrightarrow> sum_list (map2 f xs ys) = (\<Sum>i<length xs. f (xs ! i) (ys ! i))"
  by (simp add: sum_list_sum_nth atLeast0LessThan)

lemma ncols_is_mat: "is_mat r c M \<Longrightarrow> 0 < r \<Longrightarrow> ncols M = c"
  by (cases M) (auto simp: ncols_def is_mat_Cons)

lemma quad_vm:
  assumes Q: "is_mat n n Q" and x: "length x = n"
  shows "dot (vm x Q) x = (\<Sum>i<n. \<Sum>j<n. x ! i * Q ! i ! j * x ! j)"
proof (cases "n = 0")
  case True
  with Q x show ?thesis by (simp add: vm_def ncols_def dot_def)
next
  case False
  then have nc: "ncols Q = n" using ncols_is_mat [OF Q] by simp
  have lenQ: "length Q = n" using Q by (rule is_mat_length)
  have len: "length (vm x Q) = length x" by (simp add: vm_def nc x)
  have entry: "vm x Q ! j = (\<Sum>i<n. x ! i * Q ! i ! j)" if "j < n" for j
    using that sum_list_map2_nth [of x Q "\<lambda>xi row. xi * row ! j"]
    by (simp add: vm_def nc x lenQ)
  have "dot (vm x Q) x = (\<Sum>j<n. vm x Q ! j * x ! j)"
    using dot_sum [OF len] by (simp add: vm_def nc)
  also have "\<dots> = (\<Sum>j<n. \<Sum>i<n. x ! i * Q ! i ! j * x ! j)"
    by (intro sum.cong refl) (simp add: entry sum_distrib_right)
  also have "\<dots> = (\<Sum>i<n. \<Sum>j<n. x ! i * Q ! i ! j * x ! j)"
    by (rule sum.swap)
  finally show ?thesis .
qed

lemma norm2_squared: "(norm2 r)\<^sup>2 = (\<Sum>k<length r. (r ! k)\<^sup>2)"
proof -
  have "0 \<le> sum_list (map (\<lambda>y. y * y) r)"
    by (rule sum_list_nonneg) auto
  then have "(norm2 r)\<^sup>2 = sum_list (map (\<lambda>y. y * y) r)"
    by (simp add: norm2_def)
  also have "\<dots> = (\<Sum>k<length r. (r ! k)\<^sup>2)"
    by (simp add: sum_list_sum_nth atLeast0LessThan power2_eq_square)
  finally show ?thesis .
qed

lemma mv_entry:
  "k < length F \<Longrightarrow> length (F ! k) = length x \<Longrightarrow> mv F x ! k = (\<Sum>j<length x. F ! k ! j * x ! j)"
  using dot_sum [of "F ! k" x] by (simp add: mv_nth)

lemma a2dr_obj_spec:
  assumes lens: "length Qs = L" "length cs = L" "length xs = L"
    and blocks: "\<And>l. l < L \<Longrightarrow>
        is_mat (length (xs ! l)) (length (xs ! l)) (Qs ! l) \<and> length (cs ! l) = length (xs ! l)"
  shows "a2dr_obj L Qs cs xs = Inr (spec_objective L Qs cs xs)"
proof -
  let ?summand = "\<lambda>l. (\<Sum>i<length (xs ! l). \<Sum>j<length (xs ! l). xs ! l ! i * Qs ! l ! i ! j * xs ! l ! j) +
            (\<Sum>i<length (xs ! l). cs ! l ! i * xs ! l ! i)"
  let ?f = "\<lambda>l. and_then (index xs l) (\<lambda>x.
         and_then (index Qs l) (\<lambda>Q.
         and_then (np_dot_vm x Q) (\<lambda>xQ.
         and_then (np_dot_vv xQ x) (\<lambda>xQx.
         and_then (index cs l) (\<lambda>c.
         and_then (np_dot_vv c x) (\<lambda>cx. Inr (xQx + cx)))))))"
  have step: "?f l = Inr (?summand l)" if "l \<in> set [0..<L]" for l
  proof -
    from that have l: "l < L" by simp
    let ?n = "length (xs ! l)"
    from blocks [OF l] have Q: "is_mat ?n ?n (Qs ! l)" and c: "length (cs ! l) = ?n"
      by simp_all
    have lenQ: "length (Qs ! l) = ?n" using Q by (rule is_mat_length)
    have lenvm: "length (vm (xs ! l) (Qs ! l)) = ?n"
    proof (cases "?n = 0")
      case True
      with lenQ show ?thesis by (simp add: vm_def ncols_def)
    next
      case False
      then show ?thesis using ncols_is_mat [OF Q] by (simp add: vm_def)
    qed
    show ?thesis
      using l lens c lenQ lenvm quad_vm [OF Q refl] dot_sum [of "cs ! l" "xs ! l"]
      by (simp add: index_def np_dot_vm_def np_dot_vv_def)
  qed
  have all: "collect (map ?f [0..<L]) = Inr (map ?summand [0..<L])"
    by (rule collect_map_Inr) (rule step)
  show ?thesis
    unfolding a2dr_obj_def all
    by (simp add: sum_list_upt spec_objective_def)
qed

lemma a2dr_constr_vio_val_spec:
  assumes L: "0 < L"
    and lens: "length Fs = L" "length ds = L" "length xs = L"
    and blocks: "\<And>l. l < L \<Longrightarrow> is_mat (length (ds ! l)) (length (xs ! l)) (Fs ! l)"
    and G: "is_mat (length h) (length (concat xs)) G"
  shows "a2dr_constr_vio_val L Fs ds G h xs = Inr (spec_violation L Fs ds G h xs)"
proof -
  let ?summand = "\<lambda>l. \<Sum>k<length (ds ! l).
              (max ((\<Sum>j<length (xs ! l). Fs ! l ! k ! j * xs ! l ! j) - ds ! l ! k) 0)\<^sup>2"
  let ?f = "\<lambda>l. and_then (index Fs l) (\<lambda>F.
         and_then (index xs l) (\<lambda>x.
         and_then (np_dot_mv F x) (\<lambda>Fx.
         and_then (index ds l) (\<lambda>d.
         and_then (np_sub Fx d) (\<lambda>r. Inr ((norm2 (maximum0 r))\<^sup>2))))))"
  have step: "?f l = Inr (?summand l)" if "l \<in> set [0..<L]" for l
  proof -
    from that have l: "l < L" by simp
    let ?p = "length (ds ! l)"
    from blocks [OF l] have F: "is_mat ?p (length (xs ! l)) (Fs ! l)" .
    have lenF: "length (Fs ! l) = ?p" using F by (rule is_mat_length)
    have rows: "list_all (\<lambda>row. length row = length (xs ! l)) (Fs ! l)"
      using F by (simp add: is_mat_def)
    have entry: "mv (Fs ! l) (xs ! l) ! k = (\<Sum>j<length (xs ! l). Fs ! l ! k ! j * xs ! l ! j)"
      if "k < ?p" for k
      using that lenF mv_entry [of k "Fs ! l" "xs ! l"] is_mat_row [OF F that]
      by simp
    have "(norm2 (maximum0 (map2 (-) (mv (Fs ! l) (xs ! l)) (ds ! l))))\<^sup>2 = ?summand l"
      unfolding norm2_squared using lenF
      by (intro sum.cong) (simp_all add: maximum0_def entry)
    then show ?thesis
      using l lens lenF rows
      by (simp add: index_def np_dot_mv_def np_sub_def)
  qed
  have xs: "xs \<noteq> []" using L lens by auto
  have rowsG: "list_all (\<lambda>row. length row = length (concat xs)) G"
    using G by (simp add: is_mat_def)
  have lenG: "length G = length h" using G by (rule is_mat_length)
  have entryG: "mv G (concat xs) ! k = (\<Sum>j<length (concat xs). G ! k ! j * concat xs ! j)"
    if "k < length h" for k
    using that lenG mv_entry [of k G "concat xs"] is_mat_row [OF G that] by simp
  have normG: "(norm2 (map2 (-) (mv G (concat xs)) h))\<^sup>2 =
      (\<Sum>k<length h. ((\<Sum>j<length (concat xs). G ! k ! j * concat xs ! j) - h ! k)\<^sup>2)"
    unfolding norm2_squared using lenG
    by (intro sum.cong) (simp_all add: entryG)
  have all: "collect (map ?f [0..<L]) = Inr (map ?summand [0..<L])"
    by (rule collect_map_Inr) (rule step)
  show ?thesis
    unfolding a2dr_constr_vio_val_def all
    using xs rowsG lenG normG
    by (cases xs) (simp_all add: np_hstack1_def np_dot_mv_def np_sub_def sum_list_upt
        spec_violation_def)
qed

lemma draws_length: "length (fst (draws d n k)) = n"
proof (induction n arbitrary: k)
  case 0
  then show ?case by simp
next
  case (Suc n)
  obtain x k' where dk: "d k = (x, k')" by (cases "d k")
  obtain xs k'' where rest: "draws d n k' = (xs, k'')" by (cases "draws d n k'")
  from Suc.IH [of k'] rest show ?case by (simp add: dk)
qed

lemma draws_all: "(\<And>k. P (fst (d k))) \<Longrightarrow> list_all P (fst (draws d n k))"
proof (induction n arbitrary: k)
  case 0
  then show ?case by simp
next
  case (Suc n)
  obtain x k' where dk: "d k = (x, k')" by (cases "d k")
  obtain xs k'' where rest: "draws d n k' = (xs, k'')" by (cases "draws d n k'")
  from Suc.prems [of k] dk have "P x" by simp
  moreover from Suc.IH [OF Suc.prems, of k'] rest have "list_all P xs" by simp
  ultimately show ?case by (simp add: dk rest)
qed

lemma randn1_length: "length (fst (randn1 g n k)) = n"
  by (simp add: randn1_def)

lemma randn2_is_mat: "is_mat r c (fst (randn2 g r c k))"
  by (simp add: randn2_def is_mat_rows_of)

lemma dot_append:
  "length a = length x \<Longrightarrow> dot (a @ b) (x @ y) = dot a x + dot b y"
  by (simp add: dot_def)

lemma hstack_rows_Cons:
  "hstack_rows m (G # Gs) = map (\<lambda>i. G ! i @ concat (map (\<lambda>N. N ! i) Gs)) [0..<m]"
  by (simp add: hstack_rows_def)

lemma hstack_rows_nth: "i < m \<Longrightarrow> hstack_rows m Gs ! i = concat (map (\<lambda>N. N ! i) Gs)"
  by (simp add: hstack_rows_def)

lemma length_hstack_rows [simp]: "length (hstack_rows m Gs) = m"
  by (simp add: hstack_rows_def)

lemma hstack_row_length:
  assumes "length Gs = length zs"
    and "\<forall>(G, z) \<in> set (zip Gs zs). is_mat m (length z) G"
    and "i < m"
  shows "length (concat (map (\<lambda>N. N ! i) Gs)) = length (concat zs)"
  using assms
proof (induction Gs zs rule: list_induct2)
  case Nil
  then show ?case by simp
next
  case (Cons G Gs z zs)
  then have "is_mat m (length z) G" by simp
  from is_mat_row [OF this \<open>i < m\<close>] Cons show ?case by simp
qed

lemma mv_hstack:
  assumes "length Gs = length zs"
    and "\<forall>(G, z) \<in> set (zip Gs zs). is_mat m (length z) G"
  shows "mv (hstack_rows m Gs) (concat zs) = coupling_lhs m Gs zs"
  using assms
proof (induction Gs zs rule: list_induct2)
  case Nil
  show ?case
    by (rule nth_equalityI)
      (simp_all add: coupling_lhs_def zeros_def mv_def hstack_rows_def dot_def)
next
  case (Cons G Gs z zs)
  then have G: "is_mat m (length z) G"
    and rest: "\<forall>(G, z) \<in> set (zip Gs zs). is_mat m (length z) G" by simp_all
  have IH: "mv (hstack_rows m Gs) (concat zs) = coupling_lhs m Gs zs"
    by (rule Cons.IH [OF rest])
  have lenG: "length G = m" using G by (rule is_mat_length)
  have "mv (hstack_rows m (G # Gs)) (concat (z # zs)) =
        vadd (mv G z) (mv (hstack_rows m Gs) (concat zs))"
  proof (rule nth_equalityI)
    show "length (mv (hstack_rows m (G # Gs)) (concat (z # zs))) =
          length (vadd (mv G z) (mv (hstack_rows m Gs) (concat zs)))"
      by (simp add: vadd_def lenG)
  next
    fix i assume "i < length (mv (hstack_rows m (G # Gs)) (concat (z # zs)))"
    then have i: "i < m" by simp
    have row: "length (G ! i) = length z" by (rule is_mat_row [OF G i])
    show "mv (hstack_rows m (G # Gs)) (concat (z # zs)) ! i =
          vadd (mv G z) (mv (hstack_rows m Gs) (concat zs)) ! i"
      using i lenG row
      by (simp add: mv_nth hstack_rows_nth vadd_def dot_append)
  qed
  with IH show ?case by (simp add: coupling_lhs_def)
qed

lemma generate_data_feasible:
  assumes L: "0 < L"
  shows "\<exists>D. generate_data g L s ql pl = Inr D \<and>
           length (dat_F_list D) = L \<and> length (dat_G_list D) = L \<and>
           length (dat_z_tld_list D) = L \<and> length (dat_d_list D) = L \<and>
           (\<forall>l<L. is_mat pl ql (dat_F_list D ! l) \<and> is_mat s ql (dat_G_list D ! l) \<and>
                  length (dat_z_tld_list D ! l) = ql \<and> length (dat_d_list D ! l) = pl \<and>
                  (\<forall>k<pl. dat_d_list D ! l ! k -
                           mv (dat_F_list D ! l) (dat_z_tld_list D ! l) ! k = 1 / 10) \<and>
                  list_all2 (<) (mv (dat_F_list D ! l) (dat_z_tld_list D ! l))
                    (dat_d_list D ! l)) \<and>
           dat_z_tld D = concat (dat_z_tld_list D) \<and>
           length (dat_h D) = s \<and>
           coupling_lhs s (dat_G_list D) (dat_z_tld_list D) = dat_h D"
proof -
  obtain c_list k1 where c: "draws (randn1 g ql) L 0 = (c_list, k1)"
    by (cases "draws (randn1 g ql) L 0")
  obtain F_list k2 where F: "draws (randn2 g pl ql) L k1 = (F_list, k2)"
    by (cases "draws (randn2 g pl ql) L k1")
  obtain G_list k3 where G: "draws (randn2 g s ql) L k2 = (G_list, k3)"
    by (cases "draws (randn2 g s ql) L k2")
  obtain z_list k4 where z: "draws (randn1 g ql) L k3 = (z_list, k4)"
    by (cases "draws (randn1 g ql) L k3")
  obtain H_list k5 where H: "draws (randn2 g ql ql) L k4 = (H_list, k5)"
    by (cases "draws (randn2 g ql ql) L k4")
  have lenF: "length F_list = L" using draws_length [of "randn2 g pl ql" L k1] F by simp
  have lenG: "length G_list = L" using draws_length [of "randn2 g s ql" L k2] G by simp
  have lenz: "length z_list = L" using draws_length [of "randn1 g ql" L k3] z by simp
  have lenH: "length H_list = L" using draws_length [of "randn2 g ql ql" L k4] H by simp
  have "list_all (is_mat pl ql) F_list"
    using draws_all [of "is_mat pl ql" "randn2 g pl ql" L k1] F by (simp add: randn2_is_mat)
  then have shF: "is_mat pl ql (F_list ! l)" if "l < L" for l
    using that lenF by (simp add: list_all_length)
  have "list_all (is_mat s ql) G_list"
    using draws_all [of "is_mat s ql" "randn2 g s ql" L k2] G by (simp add: randn2_is_mat)
  then have shG: "is_mat s ql (G_list ! l)" if "l < L" for l
    using that lenG by (simp add: list_all_length)
  have "list_all (\<lambda>v. length v = ql) z_list"
    using draws_all [of "\<lambda>v. length v = ql" "randn1 g ql" L k3] z by (simp add: randn1_length)
  then have shz: "length (z_list ! l) = ql" if "l < L" for l
    using that lenz by (simp add: list_all_length)
  let ?d = "\<lambda>l. add_scalar (mv (F_list ! l) (z_list ! l)) (1 / 10)"
  let ?fd = "\<lambda>l. and_then (index F_list l) (\<lambda>F.
            and_then (index z_list l) (\<lambda>z.
            and_then (np_dot_mv F z) (\<lambda>Fz. Inr (add_scalar Fz (1 / 10)))))"
  have "?fd l = Inr (?d l)" if "l \<in> set [0..<L]" for l
  proof -
    from that have l: "l < L" by simp
    from shF [OF l] shz [OF l] have "list_all (\<lambda>row. length row = length (z_list ! l)) (F_list ! l)"
      by (simp add: is_mat_def)
    with l lenF lenz show ?thesis by (simp add: index_def np_dot_mv_def)
  qed
  then have d: "collect (map ?fd [0..<L]) = Inr (map ?d [0..<L])"
    by (rule collect_map_Inr)
  let ?Q = "\<lambda>l. map (\<lambda>row. vm row (H_list ! l)) (transpose_mat (H_list ! l))"
  let ?fQ = "\<lambda>l. and_then (index H_list l) (\<lambda>H. np_dot_mm (transpose_mat H) H)"
  have "?fQ l = Inr (?Q l)" if "l \<in> set [0..<L]" for l
    using that lenH by (simp add: index_def np_dot_mm_def transpose_mat_def list_all_iff)
  then have Q: "collect (map ?fQ [0..<L]) = Inr (map ?Q [0..<L])"
    by (rule collect_map_Inr)
  have G_ne: "G_list \<noteq> []" and z_ne: "z_list \<noteq> []" using L lenG lenz by auto
  have rowsG: "list_all (\<lambda>N. length N = s) G_list"
    using shG lenG by (auto simp: list_all_length dest: is_mat_length)
  have hstack2: "np_hstack2 G_list = Inr (hstack_rows s G_list)"
    using G_ne rowsG by (cases G_list) (simp_all add: np_hstack2_def)
  have hstack1: "np_hstack1 z_list = Inr (concat z_list)"
    using z_ne by (cases z_list) (simp_all add: np_hstack1_def)
  have pairs: "\<forall>(G, z) \<in> set (zip G_list z_list). is_mat s (length z) G"
    using shG shz lenG lenz by (auto simp: set_zip)
  have "length (hstack_rows s G_list ! i) = length (concat z_list)" if "i < s" for i
    using hstack_row_length [OF _ pairs that] lenG lenz that by (simp add: hstack_rows_nth)
  then have "list_all (\<lambda>row. length row = length (concat z_list)) (hstack_rows s G_list)"
    by (simp add: list_all_length)
  then have h: "np_dot_mv (hstack_rows s G_list) (concat z_list) =
      Inr (mv (hstack_rows s G_list) (concat z_list))"
    by (simp add: np_dot_mv_def)
  let ?D = "\<lparr>dat_c_list = c_list, dat_F_list = F_list, dat_G_list = G_list,
             dat_z_tld_list = z_list, dat_H_list = H_list, dat_d_list = map ?d [0..<L],
             dat_Q_list = map ?Q [0..<L], dat_G = hstack_rows s G_list,
             dat_z_tld = concat z_list,
             dat_h = mv (hstack_rows s G_list) (concat z_list)\<rparr>"
  have run: "generate_data g L s ql pl = Inr ?D"
    unfolding generate_data_def c F G z H prod.case d Q hstack2 hstack1 and_then_Inr h ..
  have block: "is_mat pl ql (F_list ! l) \<and> is_mat s ql (G_list ! l) \<and>
      length (z_list ! l) = ql \<and> length (map ?d [0..<L] ! l) = pl \<and>
      (\<forall>k<pl. map ?d [0..<L] ! l ! k - mv (F_list ! l) (z_list ! l) ! k = 1 / 10) \<and>
      list_all2 (<) (mv (F_list ! l) (z_list ! l)) (map ?d [0..<L] ! l)" if l: "l < L" for l
    using shF [OF l] shG [OF l] shz [OF l] l is_mat_length [OF shF [OF l]]
    by (simp add: add_scalar_def list_all2_conv_all_nth)
  have coupling: "coupling_lhs s G_list z_list = mv (hstack_rows s G_list) (concat z_list)"
    using mv_hstack [OF _ pairs] lenG lenz by simp
  show ?thesis
    using run lenF lenG lenz block coupling by (intro exI [of _ ?D]) simp
qed

lemma notebook_data_feasible:
  "\<exists>D. notebook_data g = Inr D \<and>
        (\<forall>l<4. list_all2 (<) (mv (dat_F_list D ! l) (dat_z_tld_list D ! l)) (dat_d_list D ! l)) \<and>
        coupling_lhs 10 (dat_G_list D) (dat_z_tld_list D) = dat_h D"
proof -
  from generate_data_feasible [of 4 g 10 30 50]
  obtain D where "generate_data g 4 10 30 50 = Inr D"
    and "\<forall>l<4. list_all2 (<) (mv (dat_F_list D ! l) (dat_z_tld_list D ! l)) (dat_d_list D ! l)"
    and "coupling_lhs 10 (dat_G_list D) (dat_z_tld_list D) = dat_h D"
    by auto
  then show ?thesis
    unfolding notebook_data_def by blast
qed

lemma map_calls_wrapper:
  "map_calls (\<lambda>l. prox_qp_wrapper l Ql cl Fl dl) ls fs =
     (map (\<lambda>i. Closure (length fs + i)) [0..<length ls],
      fs @ map (\<lambda>l. \<lparr>fr_l = l, fr_Q_list = Ql, fr_c_list = cl,
                       fr_F_list = Fl, fr_d_list = dl\<rparr>) ls)"
proof (induction ls arbitrary: fs)
  case Nil
  then show ?case by simp
next
  case (Cons x ls)
  have "map (\<lambda>i. Closure (length fs + i)) [0..<Suc (length ls)] =
        Closure (length fs) # map (\<lambda>i. Closure (Suc (length fs + i))) [0..<length ls]"
    by (simp add: upt_conv_Cons map_Suc_upt [symmetric] del: upt_Suc)
  with Cons.IH show ?case
    by (simp add: prox_qp_wrapper_def)
qed











section \<open>Flat and square representations\<close>

text \<open>
  C6. For every square \<open>q\<close>-by-\<open>q\<close> matrix \<open>M\<close>, flattening it in row-major order
  (\<open>order='C'\<close>) gives a vector of \<open>q * q\<close> entries that holds entry \<open>(i, j)\<close> at position
  \<open>i * q + j\<close>, and reshaping that vector to \<open>(q, q)\<close> in the same order raises nothing
  and gives back exactly \<open>M\<close>. The other way round, reshaping a flat vector of
  \<open>q * q\<close> entries and flattening the result gives back the vector, which is how the
  first proximal operator of the covariance example passes through the square form.
\<close>

theorem reshape_ravel_roundtrip:
  assumes "is_mat q q M"
  shows "length (ravel M) = q * q \<and>
         reshape (q, q) (ravel M) = Inr M \<and>
         (\<forall>i j. i < q \<and> j < q \<longrightarrow> ravel M ! (i * q + j) = M ! i ! j) \<and>
         (\<forall>v. length v = q * q \<longrightarrow>
            and_then (reshape (q, q) v) (\<lambda>V. Inr (ravel V)) = Inr v)"
  using assms
  by (simp add: ravel_def reshape_def length_concat_mat rows_of_concat concat_nth_mat
      concat_rows_of)

theorem reshape_ravel_roundtrip_witness:
  "is_mat 2 2 [[1, 2], [3, 4 :: real]] \<and>
   length (ravel [[1, 2], [3, 4]]) = 4 \<and>
   reshape (2, 2) (ravel [[1, 2], [3, 4]]) = Inr [[1, 2], [3, 4]] \<and>
   ravel [[1, 2], [3, 4]] ! (1 * 2 + 0) = [[1, 2], [3, 4]] ! 1 ! 0 \<and>
   and_then (reshape (2, 2) [5, 6, 7, 8]) (\<lambda>V. Inr (ravel V)) = Inr [5, 6, 7, 8]"
proof -
  have h: "is_mat 2 2 [[1, 2], [3, 4 :: real]]"
    by (simp add: is_mat_def)
  from reshape_ravel_roundtrip [OF h] h
  have "\<forall>v. length v = 2 * 2 \<longrightarrow>
          and_then (reshape (2, 2) v) (\<lambda>V. Inr (ravel V)) = Inr v"
    by blast
  from this [rule_format, of "[5, 6, 7, 8]"] reshape_ravel_roundtrip [OF h] h show ?thesis
    by (simp add: ravel_def)
qed

section \<open>Zero-snap thresholding\<close>

text \<open>
  C7. The zero-snap of the covariance example (every entry of magnitude at most \<open>1e-4\<close>
  becomes exactly zero) is idempotent: thresholding an array in place twice leaves the
  same heap, hence the same matrix, as thresholding it once; as a map on matrices,
  \<open>threshold (threshold M) = threshold M\<close> for every \<open>M\<close>.
\<close>

theorem threshold_idempotent:
  "threshold_inplace S (threshold_inplace S h) = threshold_inplace S h \<and>
   nd_matrix (threshold_inplace S (threshold_inplace S h)) S =
     nd_matrix (threshold_inplace S h) S \<and>
   threshold (threshold M) = threshold M"
  by (simp add: threshold_inplace_def threshold_def snap_snap comp_def)

section \<open>The result object after post-processing\<close>

text \<open>
  C3, as the code has it. The post-processor of the covariance example works in place:
  the reshaped matrix is a view on the buffer of the last block vector of the result
  object, so when the result has at least one block vector and the last one has
  \<open>q * q\<close> entries, post-processing raises nothing, the returned \<open>(q, q)\<close> array shares
  that buffer and shows the thresholded matrix, the last block vector stored in the
  result object now reads as its thresholded version (entries of magnitude at most
  \<open>1e-4\<close> are zero, the others are as before), and every array on another buffer reads
  as before.
\<close>

theorem post_process_in_place:
  assumes nonempty: "x_vals res \<noteq> []"
    and size: "prod_list (shape (last (x_vals res))) = q * q"
  shows "\<exists>S h'. post_process q res h = Inr (S, h') \<and>
           buffer S = buffer (last (x_vals res)) \<and> shape S = [q, q] \<and>
           nd_flat h' (last (x_vals res)) = map snap (nd_flat h (last (x_vals res))) \<and>
           nd_matrix h' S = threshold (nd_matrix h S) \<and>
           (\<forall>a. buffer a \<noteq> buffer (last (x_vals res)) \<longrightarrow> nd_flat h' a = nd_flat h a)"
proof -
  let ?x = "last (x_vals res)"
  let ?S = "\<lparr>buffer = buffer ?x, shape = [q, q]\<rparr>"
  have reshape: "nd_reshape ?x (q, q) = Inr ?S"
    using size by (simp add: nd_reshape_def)
  have run: "post_process q res h = Inr (?S, threshold_inplace ?S h)"
    using nonempty reshape by (cases "x_vals res") (simp_all add: post_process_def)
  have flat: "nd_flat (threshold_inplace ?S h) ?x = map snap (nd_flat h ?x)"
    by (simp add: nd_flat_def threshold_inplace_def)
  have matrix: "nd_matrix (threshold_inplace ?S h) ?S = threshold (nd_matrix h ?S)"
    by (simp add: nd_matrix_def threshold_inplace_def threshold_def rows_of_map)
  have frame: "nd_flat (threshold_inplace ?S h) a = nd_flat h a"
    if "buffer a \<noteq> buffer ?x" for a
    using that by (simp add: nd_flat_def threshold_inplace_def)
  from run flat matrix frame show ?thesis by simp
qed

theorem post_process_in_place_witness:
  "\<exists>S h'. post_process 1 \<lparr>x_vals = [\<lparr>buffer = 0, shape = [1]\<rparr>]\<rparr> ((\<lambda>_. [])(0 := [1 / 20000])) = Inr (S, h')
      \<and> nd_flat h' \<lparr>buffer = 0, shape = [1]\<rparr> = [0]"
  using post_process_in_place [of "\<lparr>x_vals = [\<lparr>buffer = 0, shape = [1]\<rparr>]\<rparr>" 1 "(\<lambda>_. [])(0 := [1 / 20000])"]
  by (simp add: nd_flat_def snap_def) blast

text \<open>
  The claim as first stated, that post-processing leaves the vectors stored in the result
  object unchanged, fails: with \<open>q = 2\<close> and a last block vector
  \<open>[1, 0.00005, -0.00005, 1]\<close>, that vector reads \<open>[1, 0, 0, 1]\<close> afterwards.
\<close>

theorem result_vector_overwritten_counterexample:
  "(case post_process 2
          \<lparr>x_vals = [\<lparr>buffer = 0, shape = [4]\<rparr>, \<lparr>buffer = 1, shape = [4]\<rparr>]\<rparr>
          ((\<lambda>_. [])(0 := [1, 0, 0, 1], 1 := [1, 1 / 20000, - 1 / 20000, 1])) of
      Inl e \<Rightarrow> False
    | Inr (S, h') \<Rightarrow>
        nd_flat h' \<lparr>buffer = 1, shape = [4]\<rparr> = [1, 0, 0, 1]) \<and>
   nd_flat ((\<lambda>_. [])(0 := [1, 0, 0, 1], 1 := [1, 1 / 20000, - 1 / 20000, 1]))
     \<lparr>buffer = 1, shape = [4]\<rparr> = [1, 1 / 20000, - 1 / 20000, 1]"
  by (simp add: post_process_def nd_reshape_def threshold_inplace_def nd_flat_def snap_def)

section \<open>The regularisation path\<close>

text \<open>
  C8. For a sample covariance matrix \<open>Q\<close> of shape \<open>(q, q)\<close> with \<open>q \<ge> 2\<close> (the example
  has \<open>q = 20\<close>), \<open>alpha_max\<close> is computed without an exception and equals the largest
  absolute value among the off-diagonal entries of \<open>Q\<close>; the swept sequence for a value
  \<open>a\<close> of \<open>alpha_max\<close> is \<open>[a, 0.1 * a, 0.01 * a]\<close>, in that order.
\<close>

theorem alpha_max_offdiag:
  assumes Q: "is_mat q q Q" and q: "2 \<le> q"
  shows "alpha_max Q = Inr (Max {\<bar>Q ! i ! j\<bar> | i j. i < q \<and> j < q \<and> i \<noteq> j}) \<and>
         alphas a = [a, 1 / 10 * a, 1 / 100 * a]"
proof -
  let ?xs = "select (map (map abs) Q) (fill_diagonal (ones_like Q) False)"
  have "\<bar>Q ! 0 ! 1\<bar> \<in> {\<bar>Q ! i ! j\<bar> | i j. i < q \<and> j < q \<and> i \<noteq> j}"
    using q by (intro CollectI exI [of _ 0] exI [of _ 1]) simp
  then have "?xs \<noteq> []" using offdiag_set [OF Q] by auto
  then show ?thesis
    by (simp add: alpha_max_def np_max_Max offdiag_set [OF Q] alphas_def alpha_ratios_def)
qed

theorem alpha_max_offdiag_witness:
  "is_mat 2 2 [[2, - 3], [1 / 2, 5 :: real]] \<and> (2 :: nat) \<le> 2 \<and>
   alpha_max [[2, - 3], [1 / 2, 5]] = Inr 3 \<and>
   Max {\<bar>[[2, - 3], [1 / 2, 5 :: real]] ! i ! j\<bar> | i j. i < 2 \<and> j < 2 \<and> i \<noteq> j} = 3 \<and>
   alphas 3 = [3, 1 / 10 * 3, 1 / 100 * 3]"
proof -
  have h: "is_mat 2 2 [[2, - 3], [1 / 2, 5 :: real]]"
    by (simp add: is_mat_def)
  have v: "alpha_max [[2, - 3], [1 / 2, 5]] = Inr 3"
    by (simp add: alpha_max_def fill_diagonal_def ones_like_def select_def np_max_def)
  from alpha_max_offdiag [OF h order_refl, of 3] h v show ?thesis
    by simp
qed

section \<open>The consensus problem of the covariance example\<close>

text \<open>
  C9. For every \<open>alpha\<close>, the problem handed to the solver has exactly two proximal
  operators and two coupling matrices; the matrices are the identity of order \<open>q * q\<close>
  and its negation, entry by entry, and the right-hand side is the zero vector of
  length \<open>q * q\<close>; so the operator list and the matrix list have the same length, every
  matrix has \<open>q * q\<close> columns and as many rows as the right-hand side has entries, and
  for block vectors \<open>x1\<close>, \<open>x2\<close> of length \<open>q * q\<close> the coupling constraint
  \<open>A_1 x1 + A_2 x2 = b\<close> holds exactly when \<open>x1 = x2\<close>.
\<close>

theorem assemble_consensus:
  fixes q :: nat and Q :: mat and alpha :: real
    and prox_neg_log_det :: "mat \<Rightarrow> real \<Rightarrow> mat \<Rightarrow> error + mat"
    and prox_norm1 :: "vec \<Rightarrow> real \<Rightarrow> error + vec"
  defines "P \<equiv> assemble prox_neg_log_det prox_norm1 q Q alpha"
  shows "length (prox_list P) = 2 \<and> length (A_list P) = length (prox_list P) \<and>
         list_all (is_mat (length (b_vec P)) (q * q)) (A_list P) \<and>
         b_vec P = replicate (q * q) 0 \<and>
         (\<forall>i j. i < q * q \<and> j < q * q \<longrightarrow>
            A_list P ! 0 ! i ! j = (if i = j then 1 else 0) \<and>
            A_list P ! 1 ! i ! j = (if i = j then - 1 else 0)) \<and>
         (\<forall>x1 x2. length x1 = q * q \<and> length x2 = q * q \<longrightarrow>
            (coupling_lhs (q * q) (A_list P) [x1, x2] = b_vec P \<longleftrightarrow> x1 = x2))"
proof -
  have 1: "length (prox_list P) = 2 \<and> length (A_list P) = length (prox_list P)"
    by (simp add: P_def assemble_def)
  have 2: "list_all (is_mat (length (b_vec P)) (q * q)) (A_list P)"
    by (simp add: P_def assemble_def zeros_def is_mat_eye is_mat_neg)
  have 3: "b_vec P = replicate (q * q) 0"
    by (simp add: P_def assemble_def zeros_def)
  have 4: "A_list P ! 0 ! i ! j = (if i = j then 1 else 0) \<and>
           A_list P ! 1 ! i ! j = (if i = j then - 1 else 0)"
    if "i < q * q" "j < q * q" for i j
    using that by (simp add: P_def assemble_def eye_nth neg_nth [OF is_mat_eye])
  have 5: "coupling_lhs (q * q) (A_list P) [x1, x2] = b_vec P \<longleftrightarrow> x1 = x2"
    if "length x1 = q * q" "length x2 = q * q" for x1 x2
    using consensus_constraint [OF that] by (simp add: P_def assemble_def)
  from 1 2 3 4 5 show ?thesis by blast
qed

theorem assemble_consensus_witness:
  "A_list (assemble (\<lambda>V t lin. Inr V) (\<lambda>v t. Inr v) 1 [[2]] 3) ! 0 ! 0 ! 0 = 1 \<and>
   A_list (assemble (\<lambda>V t lin. Inr V) (\<lambda>v t. Inr v) 1 [[2]] 3) ! 1 ! 0 ! 0 = - 1 \<and>
   b_vec (assemble (\<lambda>V t lin. Inr V) (\<lambda>v t. Inr v) 1 [[2]] 3) = [0] \<and>
   coupling_lhs 1 (A_list (assemble (\<lambda>V t lin. Inr V) (\<lambda>v t. Inr v) 1 [[2]] 3)) [[5], [5]] =
     b_vec (assemble (\<lambda>V t lin. Inr V) (\<lambda>v t. Inr v) 1 [[2]] 3) \<and>
   coupling_lhs 1 (A_list (assemble (\<lambda>V t lin. Inr V) (\<lambda>v t. Inr v) 1 [[2]] 3)) [[5], [4]] \<noteq>
     b_vec (assemble (\<lambda>V t lin. Inr V) (\<lambda>v t. Inr v) 1 [[2]] 3)"
proof -
  let ?P = "assemble (\<lambda>V t lin. Inr V) (\<lambda>v t. Inr v) 1 [[2]] 3"
  note T = assemble_consensus [of "\<lambda>V t lin. Inr V" "\<lambda>v t. Inr v" 1 "[[2]]" 3]
  from T have entries: "\<forall>i j. i < 1 * 1 \<and> j < 1 * 1 \<longrightarrow>
            A_list ?P ! 0 ! i ! j = (if i = j then 1 else 0) \<and>
            A_list ?P ! 1 ! i ! j = (if i = j then - 1 else 0)"
    and eq: "\<forall>x1 x2. length x1 = 1 * 1 \<and> length x2 = 1 * 1 \<longrightarrow>
            (coupling_lhs (1 * 1) (A_list ?P) [x1, x2] = b_vec ?P \<longleftrightarrow> x1 = x2)"
    and b: "b_vec ?P = replicate (1 * 1) 0"
    by blast+
  from entries [rule_format, of 0 0] eq [rule_format, of "[5]" "[5]"]
    eq [rule_format, of "[5]" "[4]"] b
  show ?thesis by simp
qed

section \<open>What the coupled example reports\<close>

text \<open>
  C5. For block solutions \<open>x_1, ..., x_L\<close> and block data of matching dimensions, the
  post-processor of the coupled example raises nothing, the objective value it computes
  is the sum over \<open>l\<close> of \<open>x_l' Q_l x_l + c_l' x_l\<close>, and the constraint violation it
  computes is \<open>sqrt(sum_l ||max(F_l x_l - d_l, 0)||^2 + ||G x - h||^2)\<close> with \<open>x\<close> the
  concatenation of the \<open>x_l\<close>. Both are values that are returned for printing: no
  branch of the computation depends on them, whatever the violation is.
\<close>

theorem reported_objective_and_violation:
  assumes "0 < L"
    and "length Qs = L" "length cs = L" "length Fs = L" "length ds = L" "length xs = L"
    and "\<forall>l<L. is_mat (length (xs ! l)) (length (xs ! l)) (Qs ! l) \<and>
               length (cs ! l) = length (xs ! l) \<and>
               is_mat (length (ds ! l)) (length (xs ! l)) (Fs ! l)"
    and "is_mat (length h) (length (concat xs)) G"
  shows "a2dr_obj L Qs cs xs = Inr (spec_objective L Qs cs xs) \<and>
         a2dr_constr_vio_val L Fs ds G h xs = Inr (spec_violation L Fs ds G h xs)"
  using assms by (simp add: a2dr_obj_spec a2dr_constr_vio_val_spec)

theorem reported_objective_and_violation_witness:
  "a2dr_obj 2 [[[1, 2], [3, 4]], [[1, 0], [0, 1]]] [[1, 1], [2, 2]] [[1, 2], [3, 4]] = Inr 69 \<and>
   a2dr_constr_vio_val 2 [[[1, 2]], [[1, 0]]] [[5], [- 1]] [[1, 1, 1, 1]] [7] [[1, 2], [3, 4]] = Inr 5"
proof -
  have shapes: "\<forall>l<2. is_mat (length ([[1, 2], [3, 4 :: real]] ! l)) (length ([[1, 2], [3, 4 :: real]] ! l))
                 ([[[1, 2], [3, 4]], [[1, 0], [0, 1 :: real]]] ! l) \<and>
               length ([[1, 1], [2, 2 :: real]] ! l) = length ([[1, 2], [3, 4 :: real]] ! l) \<and>
               is_mat (length ([[5], [- 1 :: real]] ! l)) (length ([[1, 2], [3, 4 :: real]] ! l))
                 ([[[1, 2]], [[1, 0 :: real]]] ! l)"
    by (simp add: is_mat_def less_Suc_eq numeral_2_eq_2)
  have G: "is_mat (length [7 :: real]) (length (concat [[1, 2], [3, 4 :: real]])) [[1, 1, 1, 1 :: real]]"
    by (simp add: is_mat_def)
  have obj: "spec_objective 2 [[[1, 2], [3, 4]], [[1, 0], [0, 1]]] [[1, 1], [2, 2]] [[1, 2], [3, 4]] = 69"
    by (simp add: spec_objective_def lessThan_Suc numeral_2_eq_2)
  have "spec_violation 2 [[[1, 2]], [[1, 0]]] [[5], [- 1]] [[1, 1, 1, 1]] [7] [[1, 2], [3, 4]] = sqrt (5\<^sup>2)"
    by (simp add: spec_violation_def lessThan_Suc numeral_2_eq_2 numeral_3_eq_3 eval_nat_numeral)
  then have vio: "spec_violation 2 [[[1, 2]], [[1, 0]]] [[5], [- 1]] [[1, 1, 1, 1]] [7] [[1, 2], [3, 4]] = 5"
    by simp
  from reported_objective_and_violation [of 2 "[[[1, 2], [3, 4]], [[1, 0], [0, 1]]]" "[[1, 1], [2, 2]]"
      "[[[1, 2]], [[1, 0]]]" "[[5], [- 1]]" "[[1, 2], [3, 4]]" "[7]" "[[1, 1, 1, 1]]", OF _ _ _ _ _ _ shapes G]
  show ?thesis by (simp add: obj vio)
qed

section \<open>The generated problem is feasible\<close>



section \<open>Each operator is bound to its own block\<close>

text \<open>
  C4. In the coupled example the list of proximal operators has \<open>L\<close> entries, and for
  every \<open>l < L\<close> and every \<open>(v, t)\<close>, calling the \<open>l\<close>-th operator, in the store of
  frames as it is once the whole list is built, gives what
  \<open>prox_qp(v, t, Q_list[l], c_list[l], F_list[l], d_list[l])\<close> gives: each operator
  reads \<open>l\<close> from the frame of its own call of the factory, which holds the value the
  factory was called with, and not a variable shared with the other operators.
\<close>

theorem prox_list_bound_to_own_block:
  assumes run: "make_prox_list L Q_list c_list F_list d_list fs = (ps, fs')"
    and l: "l < L"
  shows "length ps = L \<and>
         call_closure solve fs' (ps ! l) v t =
           and_then (index Q_list l) (\<lambda>Q.
           and_then (index c_list l) (\<lambda>c.
           and_then (index F_list l) (\<lambda>F.
           and_then (index d_list l) (\<lambda>d. prox_qp solve v t Q c F d)))) \<and>
         (length Q_list = L \<and> length c_list = L \<and> length F_list = L \<and> length d_list = L \<longrightarrow>
            call_closure solve fs' (ps ! l) v t =
              prox_qp solve v t (Q_list ! l) (c_list ! l) (F_list ! l) (d_list ! l))"
proof -
  let ?frame = "\<lambda>l. \<lparr>fr_l = l, fr_Q_list = Q_list, fr_c_list = c_list,
                       fr_F_list = F_list, fr_d_list = d_list\<rparr>"
  from run have ps: "ps = map (\<lambda>i. Closure (length fs + i)) [0..<L]"
    and fs': "fs' = fs @ map ?frame [0..<L]"
    by (simp_all add: make_prox_list_def map_calls_wrapper)
  have len: "length ps = L" by (simp add: ps)
  have cl: "ps ! l = Closure (length fs + l)" using l by (simp add: ps)
  have fr: "index fs' (length fs + l) = Inr (?frame l)"
    using l by (simp add: fs' index_def nth_append)
  have call: "call_closure solve fs' (ps ! l) v t =
           and_then (index Q_list l) (\<lambda>Q.
           and_then (index c_list l) (\<lambda>c.
           and_then (index F_list l) (\<lambda>F.
           and_then (index d_list l) (\<lambda>d. prox_qp solve v t Q c F d))))"
    by (simp add: call_closure_def cl fr)
  from len call l show ?thesis by (simp add: index_def)
qed

theorem prox_list_bound_to_own_block_witness:
  "(case make_prox_list 2 [[[1]], [[2]]] [[3], [4]] [[[5]], [[6]]] [[7], [8]] [] of
      (ps, fs') \<Rightarrow>
        length ps = 2 \<and>
        call_closure (\<lambda>p. Inr \<lparr>rep_status = Optimal, rep_value = Some (obj_lin p)\<rparr>) fs' (ps ! 0) [1] 1 =
          prox_qp (\<lambda>p. Inr \<lparr>rep_status = Optimal, rep_value = Some (obj_lin p)\<rparr>) [1] 1 [[1]] [3] [[5]] [7] \<and>
        call_closure (\<lambda>p. Inr \<lparr>rep_status = Optimal, rep_value = Some (obj_lin p)\<rparr>) fs' (ps ! 0) [1] 1 =
          Inr (Some [2]) \<and>
        call_closure (\<lambda>p. Inr \<lparr>rep_status = Optimal, rep_value = Some (obj_lin p)\<rparr>) fs' (ps ! 1) [1] 1 =
          Inr (Some [3]))"
proof -
  obtain ps fs' where run: "make_prox_list 2 [[[1]], [[2]]] [[3], [4]] [[[5]], [[6]]] [[7], [8]] [] = (ps, fs')"
    by (cases "make_prox_list 2 [[[1]], [[2]]] [[3], [4]] [[[5]], [[6]]] [[7], [8]] []")
  let ?solve = "\<lambda>p. Inr \<lparr>rep_status = Optimal, rep_value = Some (obj_lin p)\<rparr>"
  have v0: "prox_qp ?solve [1] 1 [[1]] [3] [[5]] [7] = Inr (Some [2])"
    and v1: "prox_qp ?solve [1] 1 [[2]] [4] [[6]] [8] = Inr (Some [3])"
    by (simp_all add: prox_qp_def form_problem_def eye_def div_mat_def div_vec_def
        np_add_mat_def np_sub_def)
  from prox_list_bound_to_own_block [OF run, of 0 ?solve "[1]" 1]
    prox_list_bound_to_own_block [OF run, of 1 ?solve "[1]" 1] v0 v1
  show ?thesis by (simp add: run index_def)
qed

section \<open>The proximal operator of a block\<close>




section \<open>Failures of the backend\<close>

text \<open>
  C2, as the code has it. \<open>prox_qp\<close> does not read the status that the backend sets.
  An exception that the backend raises reaches the caller; when the backend returns,
  \<open>prox_qp\<close> returns the value the backend left in the variable, whatever the status.
  So for a subproblem that the backend reports as infeasible or unbounded through the
  status, leaving no value, the call returns \<open>None\<close> and raises nothing.
\<close>

theorem prox_qp_status_not_read:
  assumes "form_problem v t Q c F d = Inr prob"
  shows "(\<forall>e. solve prob = Inl e \<longrightarrow> prox_qp solve v t Q c F d = Inl e) \<and>
         (\<forall>r. solve prob = Inr r \<longrightarrow> prox_qp solve v t Q c F d = Inr (rep_value r)) \<and>
         (\<forall>r. solve prob = Inr r \<and> rep_status r \<noteq> Optimal \<and> rep_value r = None \<longrightarrow>
            prox_qp solve v t Q c F d = Inr None)"
  using assms by (simp add: prox_qp_def)

theorem prox_qp_status_not_read_witness:
  "form_problem [0] 1 [[1]] [0] [[1], [- 1]] [- 1, - 1] =
     Inr \<lparr>var_dim = 1, obj_quad = [[3 / 2]], obj_lin = [0], con_F = [[1], [- 1]], con_d = [- 1, - 1]\<rparr> \<and>
   prox_qp (\<lambda>p. Inl SolverError) [0] 1 [[1]] [0] [[1], [- 1]] [- 1, - 1] = Inl SolverError \<and>
   prox_qp (\<lambda>p. Inr \<lparr>rep_status = Unbounded, rep_value = None\<rparr>)
     [0] 1 [[1]] [0] [[1], [- 1]] [- 1, - 1] = Inr None \<and>
   prox_qp (\<lambda>p. Inr \<lparr>rep_status = Optimal, rep_value = Some [7]\<rparr>)
     [0] 1 [[1]] [0] [[1], [- 1]] [- 1, - 1] = Inr (Some [7])"
proof -
  have form: "form_problem [0] 1 [[1]] [0] [[1], [- 1]] [- 1, - 1] =
     Inr \<lparr>var_dim = 1, obj_quad = [[3 / 2]], obj_lin = [0], con_F = [[1], [- 1]], con_d = [- 1, - 1]\<rparr>"
    by (simp add: form_problem_def eye_def div_mat_def div_vec_def np_add_mat_def np_sub_def)
  from prox_qp_status_not_read [OF form, of "\<lambda>p. Inl SolverError"]
    prox_qp_status_not_read [OF form, of "\<lambda>p. Inr \<lparr>rep_status = Unbounded, rep_value = None\<rparr>"]
    prox_qp_status_not_read [OF form, of "\<lambda>p. Inr \<lparr>rep_status = Optimal, rep_value = Some [7]\<rparr>"]
    form
  show ?thesis by simp
qed

text \<open>
  The claim as first stated, that an infeasible subproblem surfaces as an explicit
  solver error and not as a missing vector, fails for a backend that signals
  infeasibility through the status, as the modelling layer of the notebook does: for
  the infeasible constraints \<open>x <= -1\<close> and \<open>x >= 1\<close> the call returns \<open>None\<close> and no
  error.
\<close>

theorem infeasible_returns_none_counterexample:
  "form_problem [0] 1 [[1]] [0] [[1], [- 1]] [- 1, - 1] =
     Inr \<lparr>var_dim = 1, obj_quad = [[3 / 2]], obj_lin = [0], con_F = [[1], [- 1]], con_d = [- 1, - 1]\<rparr> \<and>
   (\<forall>x. \<not> feasible
           \<lparr>var_dim = 1, obj_quad = [[3 / 2]], obj_lin = [0], con_F = [[1], [- 1]], con_d = [- 1, - 1]\<rparr> x) \<and>
   prox_qp (\<lambda>p. Inr \<lparr>rep_status = Infeasible, rep_value = None\<rparr>)
     [0] 1 [[1]] [0] [[1], [- 1]] [- 1, - 1] = Inr None \<and>
   (\<forall>e. prox_qp (\<lambda>p. Inr \<lparr>rep_status = Infeasible, rep_value = None\<rparr>)
     [0] 1 [[1]] [0] [[1], [- 1]] [- 1, - 1] \<noteq> Inl e)"
proof -
  let ?p = "\<lparr>var_dim = 1, obj_quad = [[3 / 2]], obj_lin = [0], con_F = [[1], [- 1]], con_d = [- 1, - 1]\<rparr>"
  have form: "form_problem [0] 1 [[1]] [0] [[1], [- 1]] [- 1, - 1] = Inr ?p"
    by (simp add: form_problem_def eye_def div_mat_def div_vec_def np_add_mat_def np_sub_def)
  have "\<not> feasible ?p x" for x
  proof
    assume "feasible ?p x"
    then obtain a where "x = [a]" "a \<le> - 1" "- a \<le> - 1"
      by (cases x) (auto simp: feasible_def mv_def dot_def)
    then show False by simp
  qed
  then show ?thesis
    by (simp add: form prox_qp_def)
qed

end
